theory Spec2Isabelle
  imports Main
begin

section \<open>Deep Research to Kindle: the orchestrator of \<^verbatim>\<open>drk.mjs\<close>\<close>

text \<open>
  The script drives a browser through Gemini Deep Research, Google Docs and Send to Kindle.
  This theory embeds the model resolution, the confirmation loop, the completion poller,
  the download-menu cascade and the full-automation branch of \<^verbatim>\<open>main\<close>.

  Strings are lists of code units restricted to Latin-1 (one \<^typ>\<open>char\<close> per code unit), which
  covers every literal the claims depend on; i with acute accent is \<open>CHR 0xED\<close>, a with
  acute accent is \<open>CHR 0xE1\<close>. The emoji that open the three model labels lie outside
  Latin-1 and are left out of the \<open>label\<close> field; the field is only ever logged.
\<close>

subsection \<open>Strings\<close>

text \<open>\<^verbatim>\<open>String.prototype.toLowerCase\<close> on Latin-1 code units: A..Z and the accented capitals
  0xC0..0xDE (the multiplication sign 0xD7 apart) move up by 32, everything else stays.\<close>

definition lowerChar :: "char \<Rightarrow> char" where
  "lowerChar c =
     (let n = (of_char c :: nat)
      in if (65 \<le> n \<and> n \<le> 90) \<or> (192 \<le> n \<and> n \<le> 222 \<and> n \<noteq> 215)
         then char_of (n + 32) else c)"

text \<open>The same function on the eight bits of the code unit (least significant first),
  for evaluation: a capital has bit 6 set and bit 5 clear, and bit 5 makes it small.\<close>

lemma lowerChar_bits [code]:
  "lowerChar (Char b0 b1 b2 b3 b4 b5 b6 b7) =
     (if b6 \<and> \<not> b5 \<and>
         (if b7 then \<not> (b0 \<and> b1 \<and> b2 \<and> b4)
          else (b0 \<or> b1 \<or> b2 \<or> b3 \<or> b4) \<and> \<not> (b4 \<and> b3 \<and> (b2 \<or> (b1 \<and> b0))))
      then Char b0 b1 b2 b3 b4 True b6 b7
      else Char b0 b1 b2 b3 b4 b5 b6 b7)"
  by (cases b0; cases b1; cases b2; cases b3; cases b4; cases b5; cases b6; cases b7;
      simp add: lowerChar_def char_of_def bit_Suc_0_iff)

definition toLowerCase :: "string \<Rightarrow> string" where
  "toLowerCase s = map lowerChar s"

text \<open>A pattern of literal characters under the \<^verbatim>\<open>i\<close> flag matches at the head of a string.\<close>

fun matchesHere :: "string \<Rightarrow> string \<Rightarrow> bool" where
  "matchesHere [] s = True"
| "matchesHere (p # ps) [] = False"
| "matchesHere (p # ps) (c # cs) = (lowerChar c = lowerChar p \<and> matchesHere ps cs)"

text \<open>\<^verbatim>\<open>RegExp.prototype.test\<close> without anchors: the pattern matches at some position.\<close>

fun testCI :: "string \<Rightarrow> string \<Rightarrow> bool" where
  "testCI pat [] = matchesHere pat []"
| "testCI pat (c # cs) = (matchesHere pat (c # cs) \<or> testCI pat cs)"

text \<open>The test of \<^verbatim>\<open>chipStatus\<close> against \<^verbatim>\<open>/Conclu[Xi]do|Completed/i\<close>, where X stands for
  i with acute accent: three literal alternatives.\<close>

definition isDone :: "string \<Rightarrow> bool" where
  "isDone chipStatus =
     (testCI (''Conclu'' @ [CHR 0xED] @ ''do'') chipStatus
      \<or> testCI ''Concluido'' chipStatus
      \<or> testCI ''Completed'' chipStatus)"

text \<open>\<^verbatim>\<open>String.prototype.includes\<close>: a case-sensitive substring test.\<close>

fun startsWith :: "string \<Rightarrow> string \<Rightarrow> bool" where
  "startsWith [] s = True"
| "startsWith (p # ps) [] = False"
| "startsWith (p # ps) (c # cs) = (c = p \<and> startsWith ps cs)"

fun includes_str :: "string \<Rightarrow> string \<Rightarrow> bool" where
  "includes_str [] pat = startsWith pat []"
| "includes_str (c # cs) pat = (startsWith pat (c # cs) \<or> includes_str cs pat)"

subsection \<open>Models and model resolution\<close>

record model =
  key :: string
  label :: string
  geminiName :: string
  testId :: string

definition MODELS :: "model list" where
  "MODELS =
     [\<lparr>key = ''1'', label = ''R'' @ [CHR 0xE1] @ ''pido (Flash)'',
       geminiName = ''R'' @ [CHR 0xE1] @ ''pido'',
       testId = ''bard-mode-option-r'' @ [CHR 0xE1] @ ''pido''\<rparr>,
      \<lparr>key = ''2'', label = ''Racioc'' @ [CHR 0xED] @ ''nio (Thinking)'',
       geminiName = ''Racioc'' @ [CHR 0xED] @ ''nio'',
       testId = ''bard-mode-option-racioc'' @ [CHR 0xED] @ ''nio''\<rparr>,
      \<lparr>key = ''3'', label = ''Pro'', geminiName = ''Pro'',
       testId = ''bard-mode-option-pro''\<rparr>]"

definition DEFAULT_MODEL :: model where
  "DEFAULT_MODEL = MODELS ! 1"

text \<open>The own properties of the object literal \<^verbatim>\<open>aliases\<close>, in source order.\<close>

definition aliases :: "(string \<times> model) list" where
  "aliases =
     [(''1'', MODELS ! 0), (''flash'', MODELS ! 0), (''rapido'', MODELS ! 0),
      (''r'' @ [CHR 0xE1] @ ''pido'', MODELS ! 0),
      (''2'', MODELS ! 1), (''thinking'', MODELS ! 1), (''raciocinio'', MODELS ! 1),
      (''racioc'' @ [CHR 0xED] @ ''nio'', MODELS ! 1),
      (''3'', MODELS ! 2), (''pro'', MODELS ! 2)]"

text \<open>
  \<^verbatim>\<open>aliases\<close> is written as an object literal, so its prototype is \<^verbatim>\<open>Object.prototype\<close>
  and a property read that finds no own property goes on to the prototype. These are the
  property names of \<^verbatim>\<open>Object.prototype\<close>; each holds a function, or for \<^verbatim>\<open>__proto__\<close>
  the prototype object itself, and every one of them is truthy.
\<close>

definition objectPrototypeKeys :: "string list" where
  "objectPrototypeKeys =
     [''constructor'', ''__defineGetter__'', ''__defineSetter__'', ''hasOwnProperty'',
      ''__lookupGetter__'', ''__lookupSetter__'', ''isPrototypeOf'',
      ''propertyIsEnumerable'', ''toString'', ''valueOf'', ''__proto__'',
      ''toLocaleString'']"

text \<open>What a property read on \<^verbatim>\<open>aliases\<close> can give.\<close>

datatype jsvalue = ModelObject model | Inherited string | Undefined

definition getProperty :: "(string \<times> model) list \<Rightarrow> string \<Rightarrow> jsvalue" where
  "getProperty obj name =
     (case map_of obj name of
        Some m \<Rightarrow> ModelObject m
      | None \<Rightarrow> if name \<in> set objectPrototypeKeys then Inherited name else Undefined)"

text \<open>\<^verbatim>\<open>resolveModel(modelArg)\<close>; \<open>None\<close> is \<^verbatim>\<open>undefined\<close>, and the empty string is falsy
  as well. \<^verbatim>\<open>aliases[lower] || DEFAULT_MODEL\<close> keeps any truthy value of the read.\<close>

definition resolveModel :: "string option \<Rightarrow> jsvalue" where
  "resolveModel modelArg =
     (case modelArg of
        None \<Rightarrow> ModelObject DEFAULT_MODEL
      | Some arg \<Rightarrow>
          if arg = [] then ModelObject DEFAULT_MODEL
          else (let lower = toLowerCase arg
                in case getProperty aliases lower of
                     Undefined \<Rightarrow> ModelObject DEFAULT_MODEL
                   | v \<Rightarrow> v))"

text \<open>\<^verbatim>\<open>model.label\<close> on what \<^verbatim>\<open>resolveModel\<close> gave; \<open>None\<close> is \<^verbatim>\<open>undefined\<close>.\<close>

definition labelOf :: "jsvalue \<Rightarrow> string option" where
  "labelOf v = (case v of ModelObject m \<Rightarrow> Some (label m) | Inherited name \<Rightarrow> None
                | Undefined \<Rightarrow> None)"

subsection \<open>The clock, the trace and the page\<close>

text \<open>
  Time is \<^verbatim>\<open>Date.now()\<close> in milliseconds. The clock is the simulated one of a test feed:
  it advances when the program waits (\<^verbatim>\<open>sleep\<close>, \<^verbatim>\<open>page.waitForTimeout\<close>) or while one of
  the opaque stages runs, and a probe of the page reads the page at the current instant.
  Every effect the claims speak of is written to a trace, oldest event first.
\<close>

datatype stage =
    LaunchBrowser | NavigateToGemini | SelectModel | EnableDeepResearch | SubmitQuery
  | ExportToGoogleDocs | DownloadEpubFromDocs | CloseDocsTab | SendToKindle

datatype target =
    RoleButton string
  | LooseButton
  | DownloadSelector string
  | DownloadText

text \<open>What a rejected promise carries: the timeout of a \<^verbatim>\<open>waitFor\<close> on a target, the
  rejection of a probe or click on a target, the rejection of a \<^verbatim>\<open>page.waitForTimeout\<close> of
  so many milliseconds, or the failure of an opaque stage.\<close>

datatype error =
    TimeoutError target
  | ActionError target
  | WaitRejected int
  | StageFailed stage

datatype logline =
    SearchingConfirmButton
  | ButtonFound string
  | ResearchStartedConfirmed
  | LooseButtonFound string
  | NoConfirmButtonAfter60s
  | AwaitingCompletion
  | Phase1Header
  | StatusDetected string
  | AlreadyCompleted
  | ActivityDetected
  | StartNotDetected
  | Phase2Header
  | CompletedByStatus string int
  | PollingWithStatus int string
  | PollingSilent int
  | CompletedByReport nat int
  | MaxPollTimeReached
  | ModelLine "string option"
  | ContinuingWithDefaultModel
  | DeepResearchButtonNotFound
  | KindleSkipped
  | Finished
  | ErrorMessage error

datatype event =
    Slept int
  | Logged logline
  | Probed target
  | Clicked target
  | Entered stage
  | Screenshot
  | ContextClosed

record state =
  now :: int
  trace :: "event list"

definition emit :: "event \<Rightarrow> state \<Rightarrow> state" where
  "emit e s = s\<lparr>trace := trace s @ [e]\<rparr>"

definition logSub :: "logline \<Rightarrow> state \<Rightarrow> state" where
  "logSub l s = emit (Logged l) s"

text \<open>\<^verbatim>\<open>sleep(ms)\<close>, a promise on \<^verbatim>\<open>setTimeout\<close>: it cannot reject; the time passes and
  nothing else happens.\<close>

definition sleep :: "int \<Rightarrow> state \<Rightarrow> state" where
  "sleep d s = emit (Slept d) (s\<lparr>now := now s + d\<rparr>)"

text \<open>What \<^verbatim>\<open>locator.isVisible()\<close> can do: resolve to false, resolve to true, or reject.\<close>

datatype probe = Hidden | Shown | Rejects

text \<open>
  The remote page as the program can observe it, instant by instant.
  \<open>chipStatusAt\<close> is the trimmed text of the status chip, \<open>[]\<close> when there is no chip or the
  evaluation rejects (the source's \<^verbatim>\<open>.catch(() => "")\<close>); \<open>indicatorsAt\<close> is the visibility
  of the activity text, false when the probe rejects; \<open>reportLengthAt\<close> is the length of
  the report container's trimmed text, 0 when absent or rejected. \<open>waitOk\<close> says whether
  a \<^verbatim>\<open>page.waitForTimeout\<close> begun at that instant resolves (it rejects when the page or
  the browser is closed). \<open>downloadTextWaitFor\<close> is the outcome of the
  \<^verbatim>\<open>waitFor({ state: "visible", timeout: 5_000 })\<close> on the download text begun at that
  instant: \<open>Some d\<close> when it resolves after \<open>d\<close> ms, \<open>None\<close> when it times out. The opaque
  stages are given by whether they return (\<open>stageOk\<close>) and how long they take
  (\<open>stageMs\<close>).
\<close>

record page =
  chipStatusAt :: "int \<Rightarrow> string"
  indicatorsAt :: "int \<Rightarrow> bool"
  reportLengthAt :: "int \<Rightarrow> nat"
  roleButtonAt :: "int \<Rightarrow> string \<Rightarrow> probe"
  roleClickOk :: "int \<Rightarrow> string \<Rightarrow> bool"
  looseButtonAt :: "int \<Rightarrow> probe"
  looseTextAt :: "int \<Rightarrow> string option"
  looseClickOk :: "int \<Rightarrow> bool"
  downloadItemAt :: "int \<Rightarrow> string \<Rightarrow> probe"
  downloadClickOk :: "int \<Rightarrow> string \<Rightarrow> bool"
  downloadTextWaitFor :: "int \<Rightarrow> nat option"
  downloadTextClickOk :: "int \<Rightarrow> bool"
  waitOk :: "int \<Rightarrow> bool"
  stageOk :: "stage \<Rightarrow> bool"
  stageMs :: "stage \<Rightarrow> nat"

text \<open>\<^verbatim>\<open>page.waitForTimeout(ms)\<close>: the wait passes, or the call rejects and no time passes.\<close>

definition waitForTimeout :: "page \<Rightarrow> int \<Rightarrow> state \<Rightarrow> (error + unit) \<times> state" where
  "waitForTimeout pg d s =
     (if waitOk pg (now s) then (Inr (), sleep d s) else (Inl (WaitRejected d), s))"

subsection \<open>The completion poller\<close>

definition POLL_INTERVAL_MS :: int where
  "POLL_INTERVAL_MS = 30000"

definition MAX_POLL_TIME_MS :: int where
  "MAX_POLL_TIME_MS = 15 * 60000"

text \<open>\<^verbatim>\<open>Math.round((Date.now() - startTime) / 1000)\<close>: halves round up.\<close>

definition elapsedSeconds :: "int \<Rightarrow> int \<Rightarrow> int" where
  "elapsedSeconds t startTime = (t - startTime + 500) div 1000"

text \<open>Phase 1, the loop that looks for a sign that the research began; it gives
  \<^verbatim>\<open>researchStarted\<close>.\<close>

function phase1 :: "page \<Rightarrow> int \<Rightarrow> state \<Rightarrow> bool \<times> state" where
  "phase1 pg phase1Deadline s =
     (if now s < phase1Deadline then
        (let chipStatus = chipStatusAt pg (now s) in
         if chipStatus \<noteq> [] then
           (let s1 = logSub (StatusDetected chipStatus) s
            in (True, if isDone chipStatus then logSub AlreadyCompleted s1 else s1))
         else if indicatorsAt pg (now s) then (True, logSub ActivityDetected s)
         else phase1 pg phase1Deadline (sleep 5000 s))
      else (False, s))"
  by pat_completeness auto
termination
  by (relation "measure (\<lambda>(pg, phase1Deadline, s). nat (phase1Deadline - now s))")
     (auto simp add: sleep_def emit_def)

text \<open>Phase 2, the loop that waits for completion; it gives the function's result.\<close>

function phase2 :: "page \<Rightarrow> int \<Rightarrow> int \<Rightarrow> state \<Rightarrow> bool \<times> state" where
  "phase2 pg startTime minWaitUntil s =
     (if now s - startTime < MAX_POLL_TIME_MS then
        (let elapsed = elapsedSeconds (now s) startTime;
             chipStatus = chipStatusAt pg (now s) in
         if isDone chipStatus then
           (True, logSub (CompletedByStatus chipStatus elapsed) (sleep 5000 s))
         else if chipStatus \<noteq> [] \<and> \<not> isDone chipStatus then
           phase2 pg startTime minWaitUntil
             (sleep POLL_INTERVAL_MS (logSub (PollingWithStatus elapsed chipStatus) s))
         else if now s < minWaitUntil then
           phase2 pg startTime minWaitUntil (sleep 10000 (logSub (PollingSilent elapsed) s))
         else
           (let reportLength = reportLengthAt pg (now s) in
            if reportLength > 500 then
              (True, logSub (CompletedByReport reportLength elapsed) s)
            else
              phase2 pg startTime minWaitUntil
                (sleep POLL_INTERVAL_MS (logSub (PollingSilent elapsed) s))))
      else (False, logSub MaxPollTimeReached s))"
  by pat_completeness auto
termination
  by (relation "measure (\<lambda>(pg, startTime, minWaitUntil, s).
                  nat (startTime + MAX_POLL_TIME_MS - now s))")
     (auto simp add: sleep_def emit_def logSub_def POLL_INTERVAL_MS_def)

definition pollForCompletion :: "page \<Rightarrow> state \<Rightarrow> bool \<times> state" where
  "pollForCompletion pg s0 =
     (let s1 = logSub AwaitingCompletion s0;
          startTime = now s1;
          s2 = logSub Phase1Header s1;
          phase1Deadline = now s2 + 120000;
          (researchStarted, s3) = phase1 pg phase1Deadline s2;
          s4 = (if \<not> researchStarted then logSub StartNotDetected s3 else s3);
          s5 = logSub Phase2Header s4;
          minWaitUntil = now s5 + 60000
      in phase2 pg startTime minWaitUntil s5)"

text \<open>
  The state in which phase 2 begins, that is the part of \<^verbatim>\<open>pollForCompletion\<close> up to the
  line that computes \<^verbatim>\<open>minWaitUntil\<close>, and the instant at which it does: the entry into the
  Started phase.
\<close>

definition startedState :: "page \<Rightarrow> state \<Rightarrow> state" where
  "startedState pg s0 =
     (let s1 = logSub AwaitingCompletion s0;
          s2 = logSub Phase1Header s1;
          (researchStarted, s3) = phase1 pg (now s2 + 120000) s2;
          s4 = (if \<not> researchStarted then logSub StartNotDetected s3 else s3)
      in logSub Phase2Header s4)"

definition enteredStartedAt :: "page \<Rightarrow> state \<Rightarrow> int" where
  "enteredStartedAt pg s0 = now (startedState pg s0)"

subsection \<open>The confirmation stage\<close>

text \<open>The six patterns of \<^verbatim>\<open>possibleButtons\<close>, by their source text, in source order.\<close>

definition possibleButtons :: "string list" where
  "possibleButtons =
     [''Iniciar investiga'' @ [CHR 0xE7, CHR 0xE3] @ ''o'', ''Start investigation'',
      ''Iniciar pesquisa'', ''Start research'', ''Looks good'', ''Confirmar'']"

text \<open>
  The \<^verbatim>\<open>for (const label of possibleButtons)\<close> loop. \<open>Inr True\<close> is the \<^verbatim>\<open>return\<close> taken
  after a click and its wait of 5 s, \<open>Inr False\<close> is the loop running out, \<open>Inl\<close> is a
  rejection of \<^verbatim>\<open>isVisible\<close>, of \<^verbatim>\<open>click\<close> or of that wait, which leaves the loop for the
  enclosing \<^verbatim>\<open>catch\<close>.
\<close>

fun tryButtons :: "page \<Rightarrow> string list \<Rightarrow> state \<Rightarrow> (error + bool) \<times> state" where
  "tryButtons pg [] s = (Inr False, s)"
| "tryButtons pg (lbl # rest) s =
     (let s1 = emit (Probed (RoleButton lbl)) s in
      case roleButtonAt pg (now s) lbl of
        Rejects \<Rightarrow> (Inl (ActionError (RoleButton lbl)), s1)
      | Hidden \<Rightarrow> tryButtons pg rest s1
      | Shown \<Rightarrow>
          (let s2 = logSub (ButtonFound lbl) s1 in
           if roleClickOk pg (now s) lbl then
             (case waitForTimeout pg 5000
                     (logSub ResearchStartedConfirmed (emit (Clicked (RoleButton lbl)) s2)) of
                (Inl err, s3) \<Rightarrow> (Inl err, s3)
              | (Inr u, s3) \<Rightarrow> (Inr True, s3))
           else (Inl (ActionError (RoleButton lbl)), s2)))"

text \<open>The loose locator that follows the loop.\<close>

definition tryLooseButton :: "page \<Rightarrow> state \<Rightarrow> (error + bool) \<times> state" where
  "tryLooseButton pg s =
     (let s1 = emit (Probed LooseButton) s in
      case looseButtonAt pg (now s) of
        Rejects \<Rightarrow> (Inl (ActionError LooseButton), s1)
      | Hidden \<Rightarrow> (Inr False, s1)
      | Shown \<Rightarrow>
          (case looseTextAt pg (now s) of
             None \<Rightarrow> (Inl (ActionError LooseButton), s1)
           | Some text \<Rightarrow>
               if includes_str text ''investiga'' \<or> includes_str text ''pesquisa'' then
                 (let s2 = logSub (LooseButtonFound text) s1 in
                  if looseClickOk pg (now s) then
                    (case waitForTimeout pg 5000 (emit (Clicked LooseButton) s2) of
                       (Inl err, s3) \<Rightarrow> (Inl err, s3)
                     | (Inr u, s3) \<Rightarrow> (Inr True, s3))
                  else (Inl (ActionError LooseButton), s2))
               else (Inr False, s1)))"

text \<open>The body of the \<^verbatim>\<open>try\<close> block of one iteration.\<close>

definition confirmAttempt :: "page \<Rightarrow> state \<Rightarrow> (error + bool) \<times> state" where
  "confirmAttempt pg s =
     (case tryButtons pg possibleButtons s of
        (Inr False, s1) \<Rightarrow> tryLooseButton pg s1
      | r \<Rightarrow> r)"

lemma now_emit [simp]: "now (emit e s) = now s"
  by (simp add: emit_def)

lemma trace_emit [simp]: "trace (emit e s) = trace s @ [e]"
  by (simp add: emit_def)

lemma now_logSub [simp]: "now (logSub l s) = now s"
  by (simp add: logSub_def)

lemma trace_logSub [simp]: "trace (logSub l s) = trace s @ [Logged l]"
  by (simp add: logSub_def)

lemma now_sleep [simp]: "now (sleep d s) = now s + d"
  by (simp add: sleep_def)

lemma trace_sleep [simp]: "trace (sleep d s) = trace s @ [Slept d]"
  by (simp add: sleep_def)

lemma tryButtons_clock: "now s \<le> now (snd (tryButtons pg labels s))"
proof (induction labels arbitrary: s)
  case Nil
  show ?case by simp
next
  case (Cons a labels)
  from Cons [of "emit (Probed (RoleButton a)) s"] show ?case
    by (auto simp add: Let_def waitForTimeout_def split: probe.splits)
qed

lemma tryLooseButton_clock: "now s \<le> now (snd (tryLooseButton pg s))"
  by (auto simp add: tryLooseButton_def Let_def waitForTimeout_def
      split: probe.splits option.splits)

lemma confirmAttempt_clock: "now s \<le> now (snd (confirmAttempt pg s))"
proof (cases "tryButtons pg possibleButtons s")
  case (Pair r s1)
  with tryButtons_clock [of s pg possibleButtons] have "now s \<le> now s1" by simp
  with Pair tryLooseButton_clock [of s1 pg] show ?thesis
    by (auto simp add: confirmAttempt_def split: sum.splits bool.splits)
qed

text \<open>
  The \<^verbatim>\<open>while (Date.now() - startTime < maxWait)\<close> loop. A rejection inside the \<^verbatim>\<open>try\<close>
  is caught and ignored. The wait of 2 s that follows is outside the \<^verbatim>\<open>try\<close>: when it
  resolves the loop goes on, and when it rejects the rejection leaves the function.
\<close>

lemma waitForTimeout_resolved:
  "waitForTimeout pg d s = (Inr u, s') \<Longrightarrow> s' = sleep d s"
  by (simp add: waitForTimeout_def split: if_splits)

function confirmLoop :: "page \<Rightarrow> int \<Rightarrow> state \<Rightarrow> (error + unit) \<times> state" where
  "confirmLoop pg startTime s =
     (if now s - startTime < 60000 then
        (case confirmAttempt pg s of
           (Inr True, s1) \<Rightarrow> (Inr (), s1)
         | (Inr False, s1) \<Rightarrow>
             (case waitForTimeout pg 2000 s1 of
                (Inl err, s2) \<Rightarrow> (Inl err, s2)
              | (Inr u, s2) \<Rightarrow> confirmLoop pg startTime s2)
         | (Inl caught, s1) \<Rightarrow>
             (case waitForTimeout pg 2000 s1 of
                (Inl err, s2) \<Rightarrow> (Inl err, s2)
              | (Inr u, s2) \<Rightarrow> confirmLoop pg startTime s2))
      else (Inr (), logSub NoConfirmButtonAfter60s s))"
  by pat_completeness auto
termination confirmLoop
proof (relation "measure (\<lambda>(pg, startTime, s). nat (startTime + 60000 - now s))")
  show "wf (measure (\<lambda>(pg, startTime, s). nat (startTime + 60000 - now s)))"
    by simp
next
  fix pg startTime s x1 s1 b x2 s2 u
  assume "now s - startTime < 60000" and "(x1, s1) = confirmAttempt pg s"
    and "(x2, s2) = waitForTimeout pg 2000 s1" and "x2 = Inr u"
  with confirmAttempt_clock [of s pg] waitForTimeout_resolved [of pg 2000 s1 u s2]
  show "((pg, startTime, s2), pg, startTime, s)
        \<in> measure (\<lambda>(pg, startTime, s). nat (startTime + 60000 - now s))"
    by (cases "confirmAttempt pg s") auto
next
  fix pg startTime s x1 s1 caught x2 s2 u
  assume "now s - startTime < 60000" and "(x1, s1) = confirmAttempt pg s"
    and "(x2, s2) = waitForTimeout pg 2000 s1" and "x2 = Inr u"
  with confirmAttempt_clock [of s pg] waitForTimeout_resolved [of pg 2000 s1 u s2]
  show "((pg, startTime, s2), pg, startTime, s)
        \<in> measure (\<lambda>(pg, startTime, s). nat (startTime + 60000 - now s))"
    by (cases "confirmAttempt pg s") auto
qed

definition confirmResearchStart :: "page \<Rightarrow> state \<Rightarrow> (error + unit) \<times> state" where
  "confirmResearchStart pg s0 =
     (let s1 = logSub SearchingConfirmButton s0;
          startTime = now s1
      in confirmLoop pg startTime s1)"

subsection \<open>The download-menu cascade of \<^verbatim>\<open>downloadEpubFromDocs\<close>\<close>




subsection \<open>The full-automation branch of \<^verbatim>\<open>main\<close>\<close>

text \<open>
  The stages whose bodies are plain browser automation are taken from the page: a stage
  is entered, takes its time, and returns or rejects.
\<close>

definition runStage :: "page \<Rightarrow> stage \<Rightarrow> state \<Rightarrow> (error + unit) \<times> state" where
  "runStage pg st s =
     (let s1 = (emit (Entered st) s)\<lparr>now := now s + int (stageMs pg st)\<rparr>
      in if stageOk pg st then (Inr (), s1) else (Inl (StageFailed st), s1))"

text \<open>\<^verbatim>\<open>selectModel\<close> and \<^verbatim>\<open>enableDeepResearch\<close> wrap their bodies in \<^verbatim>\<open>try\<close>/\<^verbatim>\<open>catch\<close>, log
  and go on.\<close>

definition selectModel :: "page \<Rightarrow> state \<Rightarrow> (error + unit) \<times> state" where
  "selectModel pg s =
     (case runStage pg SelectModel s of
        (Inl err, s1) \<Rightarrow> (Inr (), logSub ContinuingWithDefaultModel s1)
      | (Inr u, s1) \<Rightarrow> (Inr u, s1))"

definition enableDeepResearch :: "page \<Rightarrow> state \<Rightarrow> (error + unit) \<times> state" where
  "enableDeepResearch pg s =
     (case runStage pg EnableDeepResearch s of
        (Inl err, s1) \<Rightarrow> (Inr (), logSub DeepResearchButtonNotFound s1)
      | (Inr u, s1) \<Rightarrow> (Inr u, s1))"

text \<open>\<^verbatim>\<open>await f(); rest\<close>: a rejection of \<open>f\<close> skips the rest.\<close>

definition andThen ::
  "(error + 'a) \<times> state \<Rightarrow> ('a \<Rightarrow> state \<Rightarrow> (error + 'b) \<times> state) \<Rightarrow> (error + 'b) \<times> state" where
  "andThen r f = (case r of (Inl err, s) \<Rightarrow> (Inl err, s) | (Inr v, s) \<Rightarrow> f v s)"

text \<open>The statements of the \<^verbatim>\<open>try\<close> block after \<^verbatim>\<open>await pollForCompletion(page)\<close>.\<close>

definition afterPoll :: "page \<Rightarrow> bool \<Rightarrow> state \<Rightarrow> (error + unit) \<times> state" where
  "afterPoll pg skipKindle s =
     andThen (runStage pg ExportToGoogleDocs s) (\<lambda>u s.
     andThen (runStage pg DownloadEpubFromDocs s) (\<lambda>u s.
     andThen (runStage pg CloseDocsTab s) (\<lambda>u s.
     andThen (if \<not> skipKindle then runStage pg SendToKindle s
              else (Inr (), logSub KindleSkipped s)) (\<lambda>u s.
     (Inr (), logSub Finished s)))))"

text \<open>The statements of the \<^verbatim>\<open>try\<close> block up to \<^verbatim>\<open>await submitQuery(page, query)\<close>.\<close>

definition beforeConfirm :: "page \<Rightarrow> state \<Rightarrow> (error + unit) \<times> state" where
  "beforeConfirm pg s =
     andThen (runStage pg NavigateToGemini s) (\<lambda>u s.
     andThen (selectModel pg s) (\<lambda>u s.
     andThen (enableDeepResearch pg s) (\<lambda>u s.
     runStage pg SubmitQuery s)))"

text \<open>The whole \<^verbatim>\<open>try\<close> block. The value of \<^verbatim>\<open>await pollForCompletion(page)\<close> is not bound
  to anything: the statement is an expression statement.\<close>

definition fullFlow :: "page \<Rightarrow> bool \<Rightarrow> state \<Rightarrow> (error + unit) \<times> state" where
  "fullFlow pg skipKindle s =
     andThen (beforeConfirm pg s) (\<lambda>u s.
     andThen (confirmResearchStart pg s) (\<lambda>u s.
     (case pollForCompletion pg s of
        (completed, s1) \<Rightarrow> afterPoll pg skipKindle s1)))"

text \<open>
  How a block of the program can end: it completes, it throws, or the process has exited.
  \<^verbatim>\<open>process.exit(code)\<close> ends the Node.js process at once: nothing after it runs, neither
  the rest of the \<^verbatim>\<open>catch\<close> block nor the \<^verbatim>\<open>finally\<close> block.
\<close>

datatype 'a completion = Normal 'a | Thrown error | Exited nat

definition processExit :: "nat \<Rightarrow> state \<Rightarrow> unit completion \<times> state" where
  "processExit code s = (Exited code, s)"

text \<open>The \<^verbatim>\<open>catch (err)\<close> block of \<^verbatim>\<open>main\<close>: log, screenshot (in a \<^verbatim>\<open>try\<close> of its own),
  \<^verbatim>\<open>console.error\<close>, \<^verbatim>\<open>process.exit(1)\<close>.\<close>

definition catchBlock :: "error \<Rightarrow> state \<Rightarrow> unit completion \<times> state" where
  "catchBlock err s = processExit 1 (emit Screenshot (logSub (ErrorMessage err) s))"

text \<open>The \<^verbatim>\<open>finally\<close> block of \<^verbatim>\<open>main\<close>: \<^verbatim>\<open>await context.close()\<close>.\<close>

definition finallyBlock :: "state \<Rightarrow> state" where
  "finallyBlock s = emit ContextClosed s"

text \<open>\<^verbatim>\<open>try { body } catch (err) { handler } finally { final }\<close>: the \<^verbatim>\<open>finally\<close> block runs
  when control leaves the \<^verbatim>\<open>try\<close> or the \<^verbatim>\<open>catch\<close> block, which it does not after an exit.\<close>

definition tryCatchFinally ::
  "(state \<Rightarrow> (error + unit) \<times> state) \<Rightarrow> (error \<Rightarrow> state \<Rightarrow> unit completion \<times> state)
   \<Rightarrow> (state \<Rightarrow> state) \<Rightarrow> state \<Rightarrow> unit completion \<times> state" where
  "tryCatchFinally body handler final s =
     (case body s of
        (Inr u, s1) \<Rightarrow> (Normal u, final s1)
      | (Inl err, s1) \<Rightarrow>
          (case handler err s1 of
             (Exited code, s2) \<Rightarrow> (Exited code, s2)
           | (Normal u, s2) \<Rightarrow> (Normal u, final s2)
           | (Thrown err2, s2) \<Rightarrow> (Thrown err2, final s2)))"

text \<open>The \<^verbatim>\<open>try\<close> statement of the full-automation branch.\<close>

definition mainTry :: "page \<Rightarrow> bool \<Rightarrow> state \<Rightarrow> unit completion \<times> state" where
  "mainTry pg skipKindle s = tryCatchFinally (fullFlow pg skipKindle) catchBlock finallyBlock s"

text \<open>
  \<^verbatim>\<open>main\<close> from the model selection on (the help, login-only and send-only branches are
  not taken): the model is resolved and logged, the browser is launched, and the \<^verbatim>\<open>try\<close>
  statement follows. \<^verbatim>\<open>launchBrowser\<close> is awaited outside the \<^verbatim>\<open>try\<close>, so its rejection
  leaves \<^verbatim>\<open>main\<close> with no context open.
\<close>

definition afterLaunch ::
  "(error + unit) \<times> state \<Rightarrow> (state \<Rightarrow> unit completion \<times> state) \<Rightarrow> unit completion \<times> state" where
  "afterLaunch r rest = (case r of (Inl err, s) \<Rightarrow> (Thrown err, s) | (Inr u, s) \<Rightarrow> rest s)"

definition mainFull :: "page \<Rightarrow> string option \<Rightarrow> bool \<Rightarrow> state \<Rightarrow> unit completion \<times> state" where
  "mainFull pg modelArg skipKindle s0 =
     afterLaunch
       (runStage pg LaunchBrowser (logSub (ModelLine (labelOf (resolveModel modelArg))) s0))
       (mainTry pg skipKindle)"

text \<open>The exit status of the process: 0 when \<^verbatim>\<open>main\<close> completes, the argument of
  \<^verbatim>\<open>process.exit\<close>, and 1 for an unhandled rejection.\<close>

fun exitStatus :: "unit completion \<Rightarrow> nat" where
  "exitStatus (Normal u) = 0"
| "exitStatus (Thrown err) = 1"
| "exitStatus (Exited code) = code"

subsection \<open>Concrete pages\<close>

definition initialState :: state where
  "initialState = \<lparr>now = 0, trace = []\<rparr>"

definition quietPage :: page where
  "quietPage =
     \<lparr>chipStatusAt = (\<lambda>t. []), indicatorsAt = (\<lambda>t. False), reportLengthAt = (\<lambda>t. 0),
      roleButtonAt = (\<lambda>t l. Hidden), roleClickOk = (\<lambda>t l. True),
      looseButtonAt = (\<lambda>t. Hidden), looseTextAt = (\<lambda>t. None), looseClickOk = (\<lambda>t. True),
      downloadItemAt = (\<lambda>t l. Hidden), downloadClickOk = (\<lambda>t l. True),
      downloadTextWaitFor = (\<lambda>t. Some 0), downloadTextClickOk = (\<lambda>t. True),
      waitOk = (\<lambda>t. True),
      stageOk = (\<lambda>st. True), stageMs = (\<lambda>st. 0)\<rparr>"

definition alreadyDonePage :: page where
  "alreadyDonePage = quietPage\<lparr>chipStatusAt := (\<lambda>t. ''Conclu'' @ [CHR 0xED] @ ''do'')\<rparr>"

definition reportOnlyPage :: page where
  "reportOnlyPage = quietPage\<lparr>indicatorsAt := (\<lambda>t. True), reportLengthAt := (\<lambda>t. 1000)\<rparr>"

definition lateActivityPage :: page where
  "lateActivityPage = quietPage\<lparr>indicatorsAt := (\<lambda>t. 5000 \<le> t)\<rparr>"

text \<open>A page on which the first confirmation button is there at once.\<close>

definition confirmingPage :: page where
  "confirmingPage =
     quietPage\<lparr>roleButtonAt := (\<lambda>t l. if l = hd possibleButtons then Shown else Hidden)\<rparr>"

text \<open>The research never finishes: the chip reads \<^verbatim>\<open>Pesquisando\<close> for ever.\<close>

definition stuckPage :: page where
  "stuckPage = confirmingPage\<lparr>chipStatusAt := (\<lambda>t. ''Pesquisando'')\<rparr>"

text \<open>The research is done, and the export to Google Docs fails.\<close>

definition exportFailsPage :: page where
  "exportFailsPage =
     confirmingPage\<lparr>chipStatusAt := (\<lambda>t. ''Conclu'' @ [CHR 0xED] @ ''do''),
                    stageOk := (\<lambda>st. st \<noteq> ExportToGoogleDocs)\<rparr>"


text \<open>Both completion signals at once: a done status and a long report.\<close>

definition bothSignalsPage :: page where
  "bothSignalsPage =
     quietPage\<lparr>chipStatusAt := (\<lambda>t. ''Conclu'' @ [CHR 0xED] @ ''do''),
               reportLengthAt := (\<lambda>t. 1000)\<rparr>"





section \<open>Properties\<close>

subsection \<open>Model resolution\<close>

lemma toLowerCase_constructor: "toLowerCase ''constructor'' = ''constructor''"
  by code_simp

text \<open>
  C10. Model resolution is meant to be total and defaulting: every argument gives one of
  the three models. At the argument \<^verbatim>\<open>constructor\<close> the code does not: the read
  \<^verbatim>\<open>aliases["constructor"]\<close> finds the inherited \<^verbatim>\<open>Object.prototype.constructor\<close>, which is
  truthy, so it is returned in place of a model, and no default is taken.
\<close>

theorem resolveModel_constructor_not_a_model:
  "resolveModel (Some ''constructor'') = Inherited ''constructor''
   \<and> resolveModel (Some ''constructor'') \<notin> ModelObject ` set MODELS"
  by (auto simp add: resolveModel_def toLowerCase_constructor getProperty_def aliases_def
      objectPrototypeKeys_def)

text \<open>Apart from the names inherited from \<^verbatim>\<open>Object.prototype\<close> the resolution does what it is
  meant to: it gives one of the three models, and the default one for any other name that
  is no alias.\<close>

lemma resolveModel_apart_from_inherited:
  assumes "toLowerCase arg \<notin> set objectPrototypeKeys"
  shows "\<exists>m\<in>set MODELS. resolveModel (Some arg) = ModelObject m"
    and "map_of aliases (toLowerCase arg) = None \<Longrightarrow>
         resolveModel (Some arg) = ModelObject DEFAULT_MODEL"
proof -
  have known: "m \<in> set MODELS" if "map_of aliases k = Some m" for k m
    using map_of_SomeD [OF that] by (auto simp add: aliases_def MODELS_def)
  have dflt: "DEFAULT_MODEL \<in> set MODELS"
    by (simp add: DEFAULT_MODEL_def MODELS_def)
  show "\<exists>m\<in>set MODELS. resolveModel (Some arg) = ModelObject m"
    using assms known dflt
    by (cases "map_of aliases (toLowerCase arg)")
       (auto simp add: resolveModel_def getProperty_def Let_def)
  show "resolveModel (Some arg) = ModelObject DEFAULT_MODEL"
    if "map_of aliases (toLowerCase arg) = None"
    using assms that by (simp add: resolveModel_def getProperty_def Let_def)
qed

subsection \<open>The completion poller\<close>

declare phase1.simps [simp del] phase2.simps [simp del]

lemma phase1_clock:
  "now s \<le> now (snd (phase1 pg d s)) \<and> now (snd (phase1 pg d s)) \<le> max (now s) (d + 4999)"
proof (induction pg d s rule: phase1.induct)
  case (1 pg d s)
  show ?case
  proof (cases "now s < d \<and> chipStatusAt pg (now s) = [] \<and> \<not> indicatorsAt pg (now s)")
    case True
    then have "phase1 pg d s = phase1 pg d (sleep 5000 s)"
      by (subst phase1.simps) simp
    moreover from True 1 have
      "now (sleep 5000 s) \<le> now (snd (phase1 pg d (sleep 5000 s)))
       \<and> now (snd (phase1 pg d (sleep 5000 s))) \<le> max (now (sleep 5000 s)) (d + 4999)"
      by simp
    ultimately show ?thesis using True by simp
  next
    case False
    then show ?thesis
      by (subst (1 2) phase1.simps) (auto simp add: Let_def)
  qed
qed

lemma isDone_Nil [simp]: "\<not> isDone []"
  by (simp add: isDone_def)

text \<open>One cycle of phase 2, branch by branch.\<close>

lemma phase2_exit:
  "\<not> now s - st < MAX_POLL_TIME_MS \<Longrightarrow>
   phase2 pg st mw s = (False, logSub MaxPollTimeReached s)"
  by (subst phase2.simps) simp

lemma phase2_done:
  "now s - st < MAX_POLL_TIME_MS \<Longrightarrow> isDone (chipStatusAt pg (now s)) \<Longrightarrow>
   phase2 pg st mw s =
     (True, logSub (CompletedByStatus (chipStatusAt pg (now s)) (elapsedSeconds (now s) st))
              (sleep 5000 s))"
  by (subst phase2.simps) (simp add: Let_def)

lemma phase2_status:
  "now s - st < MAX_POLL_TIME_MS \<Longrightarrow> \<not> isDone (chipStatusAt pg (now s)) \<Longrightarrow>
   chipStatusAt pg (now s) \<noteq> [] \<Longrightarrow>
   phase2 pg st mw s =
     phase2 pg st mw
       (sleep POLL_INTERVAL_MS
          (logSub (PollingWithStatus (elapsedSeconds (now s) st) (chipStatusAt pg (now s))) s))"
  by (subst phase2.simps) (simp add: Let_def)

lemma phase2_dwell:
  "now s - st < MAX_POLL_TIME_MS \<Longrightarrow> chipStatusAt pg (now s) = [] \<Longrightarrow> now s < mw \<Longrightarrow>
   phase2 pg st mw s =
     phase2 pg st mw (sleep 10000 (logSub (PollingSilent (elapsedSeconds (now s) st)) s))"
  by (subst phase2.simps) (simp add: Let_def)

lemma phase2_report:
  "now s - st < MAX_POLL_TIME_MS \<Longrightarrow> chipStatusAt pg (now s) = [] \<Longrightarrow> \<not> now s < mw \<Longrightarrow>
   500 < reportLengthAt pg (now s) \<Longrightarrow>
   phase2 pg st mw s =
     (True, logSub (CompletedByReport (reportLengthAt pg (now s)) (elapsedSeconds (now s) st)) s)"
  by (subst phase2.simps) (simp add: Let_def)

lemma phase2_wait:
  "now s - st < MAX_POLL_TIME_MS \<Longrightarrow> chipStatusAt pg (now s) = [] \<Longrightarrow> \<not> now s < mw \<Longrightarrow>
   \<not> 500 < reportLengthAt pg (now s) \<Longrightarrow>
   phase2 pg st mw s =
     phase2 pg st mw
       (sleep POLL_INTERVAL_MS (logSub (PollingSilent (elapsedSeconds (now s) st)) s))"
  by (subst phase2.simps) (simp add: Let_def)

lemma phase2_cycle_cases [case_names expired bystatus status dwell byreport wait]:
  assumes "\<not> now s - st < MAX_POLL_TIME_MS \<Longrightarrow> R"
    and "now s - st < MAX_POLL_TIME_MS \<Longrightarrow> isDone (chipStatusAt pg (now s)) \<Longrightarrow> R"
    and "now s - st < MAX_POLL_TIME_MS \<Longrightarrow> \<not> isDone (chipStatusAt pg (now s)) \<Longrightarrow>
         chipStatusAt pg (now s) \<noteq> [] \<Longrightarrow> R"
    and "now s - st < MAX_POLL_TIME_MS \<Longrightarrow> chipStatusAt pg (now s) = [] \<Longrightarrow> now s < mw \<Longrightarrow> R"
    and "now s - st < MAX_POLL_TIME_MS \<Longrightarrow> chipStatusAt pg (now s) = [] \<Longrightarrow> \<not> now s < mw \<Longrightarrow>
         500 < reportLengthAt pg (now s) \<Longrightarrow> R"
    and "now s - st < MAX_POLL_TIME_MS \<Longrightarrow> chipStatusAt pg (now s) = [] \<Longrightarrow> \<not> now s < mw \<Longrightarrow>
         \<not> 500 < reportLengthAt pg (now s) \<Longrightarrow> R"
  shows R
  using assms by blast

text \<open>A feed that never completes: no done status, report never over the threshold.\<close>

lemma phase2_never_done:
  assumes nd: "\<And>t. \<not> isDone (chipStatusAt pg t)" and rl: "\<And>t. reportLengthAt pg t \<le> 500"
  shows "now s - st < MAX_POLL_TIME_MS + POLL_INTERVAL_MS \<Longrightarrow>
         fst (phase2 pg st mw s) = False
         \<and> MAX_POLL_TIME_MS \<le> now (snd (phase2 pg st mw s)) - st
         \<and> now (snd (phase2 pg st mw s)) - st < MAX_POLL_TIME_MS + POLL_INTERVAL_MS
         \<and> trace (snd (phase2 pg st mw s)) \<noteq> []
         \<and> last (trace (snd (phase2 pg st mw s))) = Logged MaxPollTimeReached"
proof (induction "nat (st + MAX_POLL_TIME_MS - now s)" arbitrary: s rule: less_induct)
  case less
  show ?case
  proof (cases rule: phase2_cycle_cases [where s = s and st = st and pg = pg and mw = mw])
    case expired
    then show ?thesis using less.prems by (simp add: phase2_exit)
  next
    case bystatus
    then show ?thesis using nd by simp
  next
    case status
    then show ?thesis
      using less.hyps [of "sleep POLL_INTERVAL_MS
          (logSub (PollingWithStatus (elapsedSeconds (now s) st) (chipStatusAt pg (now s))) s)"]
      by (simp add: phase2_status POLL_INTERVAL_MS_def)
  next
    case dwell
    then show ?thesis
      using less.hyps [of "sleep 10000 (logSub (PollingSilent (elapsedSeconds (now s) st)) s)"]
      by (simp add: phase2_dwell POLL_INTERVAL_MS_def)
  next
    case byreport
    then show ?thesis using rl [of "now s"] by simp
  next
    case wait
    then show ?thesis
      using less.hyps [of "sleep POLL_INTERVAL_MS
          (logSub (PollingSilent (elapsedSeconds (now s) st)) s)"]
      by (simp add: phase2_wait POLL_INTERVAL_MS_def)
  qed
qed


lemma pollForCompletion_phase2:
  "pollForCompletion pg s0 =
     phase2 pg (now s0) (enteredStartedAt pg s0 + 60000) (startedState pg s0)"
  by (simp add: pollForCompletion_def startedState_def enteredStartedAt_def Let_def
      split: prod.splits)

lemma enteredStartedAt_bounds:
  "now s0 \<le> enteredStartedAt pg s0 \<and> enteredStartedAt pg s0 \<le> now s0 + 124999"
  using phase1_clock [of "logSub Phase1Header (logSub AwaitingCompletion s0)" pg "now s0 + 120000"]
  by (auto simp add: enteredStartedAt_def startedState_def Let_def split: prod.splits)

lemma pollForCompletion_never_done:
  assumes nd: "\<And>t. \<not> isDone (chipStatusAt pg t)" and rl: "\<And>t. reportLengthAt pg t \<le> 500"
  shows "fst (pollForCompletion pg s0) = False
         \<and> Logged MaxPollTimeReached \<in> set (trace (snd (pollForCompletion pg s0)))
         \<and> last (trace (snd (pollForCompletion pg s0))) = Logged MaxPollTimeReached
         \<and> now s0 + MAX_POLL_TIME_MS \<le> now (snd (pollForCompletion pg s0))
         \<and> now (snd (pollForCompletion pg s0)) < now s0 + MAX_POLL_TIME_MS + POLL_INTERVAL_MS"
proof -
  have entry: "now (startedState pg s0) - now s0 < MAX_POLL_TIME_MS + POLL_INTERVAL_MS"
    using enteredStartedAt_bounds [of s0 pg]
    by (simp add: enteredStartedAt_def MAX_POLL_TIME_MS_def POLL_INTERVAL_MS_def)
  show ?thesis
    unfolding pollForCompletion_phase2
    using phase2_never_done [of pg "startedState pg s0" "now s0" "enteredStartedAt pg s0 + 60000",
        OF nd rl entry]
      last_in_set [of "trace (snd (phase2 pg (now s0) (enteredStartedAt pg s0 + 60000)
                                      (startedState pg s0)))"]
    by auto
qed

lemma phase1_silent:
  "(\<forall>k<n. chipStatusAt pg (now s + 5000 * int k) = [] \<and> \<not> indicatorsAt pg (now s + 5000 * int k))
   \<Longrightarrow> d = now s + 5000 * int n
   \<Longrightarrow> phase1 pg d s = (False, s\<lparr>now := d, trace := trace s @ replicate n (Slept 5000)\<rparr>)"
proof (induction n arbitrary: s)
  case 0
  then show ?case by (subst phase1.simps) simp
next
  case (Suc n)
  from Suc.prems(1) have here: "chipStatusAt pg (now s) = []" "\<not> indicatorsAt pg (now s)"
    by (auto dest: spec [of _ 0])
  have later: "\<forall>k<n. chipStatusAt pg (now (sleep 5000 s) + 5000 * int k) = []
                 \<and> \<not> indicatorsAt pg (now (sleep 5000 s) + 5000 * int k)"
  proof (intro allI impI)
    fix k assume "k < n"
    then have "Suc k < Suc n" by simp
    from Suc.prems(1) [rule_format, OF this] show
      "chipStatusAt pg (now (sleep 5000 s) + 5000 * int k) = []
       \<and> \<not> indicatorsAt pg (now (sleep 5000 s) + 5000 * int k)"
      by (simp add: algebra_simps)
  qed
  have d: "d = now (sleep 5000 s) + 5000 * int n"
    using Suc.prems(2) by simp
  have "phase1 pg d s = phase1 pg d (sleep 5000 s)"
    using here Suc.prems(2) by (subst phase1.simps) simp
  also have "\<dots> = (False, (sleep 5000 s)\<lparr>now := d,
      trace := trace (sleep 5000 s) @ replicate n (Slept 5000)\<rparr>)"
    by (rule Suc.IH [OF later d])
  also have "\<dots> = (False, s\<lparr>now := d, trace := trace s @ replicate (Suc n) (Slept 5000)\<rparr>)"
    by (simp add: sleep_def emit_def)
  finally show ?case .
qed

lemma grid_step:
  fixes c x :: int
  shows "c dvd x \<Longrightarrow> 0 < x \<Longrightarrow> c \<le> x \<and> c dvd (x - c)"
  by (simp add: zdvd_imp_le)

lemma phase2_silent_exact:
  assumes quiet: "\<And>t. chipStatusAt pg t = []" and rl: "\<And>t. reportLengthAt pg t \<le> 500"
    and grid: "mw \<le> st + MAX_POLL_TIME_MS" "30000 dvd (st + MAX_POLL_TIME_MS - mw)"
  shows "now s \<le> st + MAX_POLL_TIME_MS \<Longrightarrow>
         (now s < mw \<longrightarrow> 10000 dvd (mw - now s)) \<Longrightarrow>
         (mw \<le> now s \<longrightarrow> 30000 dvd (st + MAX_POLL_TIME_MS - now s)) \<Longrightarrow>
         now (snd (phase2 pg st mw s)) = st + MAX_POLL_TIME_MS"
proof (induction "nat (st + MAX_POLL_TIME_MS - now s)" arbitrary: s rule: less_induct)
  case less
  show ?case
  proof (cases rule: phase2_cycle_cases [where s = s and st = st and pg = pg and mw = mw])
    case expired
    then show ?thesis using less.prems by (simp add: phase2_exit)
  next
    case bystatus
    then show ?thesis using quiet by simp
  next
    case status
    then show ?thesis using quiet by simp
  next
    case dwell
    let ?s = "sleep 10000 (logSub (PollingSilent (elapsedSeconds (now s) st)) s)"
    from dwell less.prems have "10000 dvd (mw - now s)" "0 < mw - now s" by simp_all
    from grid_step [OF this]
    have step: "now s + 10000 \<le> mw" "10000 dvd (mw - (now s + 10000))"
      by (simp_all add: algebra_simps)
    have "now (snd (phase2 pg st mw ?s)) = st + MAX_POLL_TIME_MS"
      using dwell step grid by (intro less.hyps) auto
    then show ?thesis using dwell by (simp add: phase2_dwell)
  next
    case byreport
    then show ?thesis using rl [of "now s"] by simp
  next
    case wait
    let ?s = "sleep POLL_INTERVAL_MS (logSub (PollingSilent (elapsedSeconds (now s) st)) s)"
    from wait less.prems have "30000 dvd (st + MAX_POLL_TIME_MS - now s)"
      "0 < st + MAX_POLL_TIME_MS - now s" by simp_all
    from grid_step [OF this]
    have step: "now s + 30000 \<le> st + MAX_POLL_TIME_MS"
      "30000 dvd (st + MAX_POLL_TIME_MS - (now s + 30000))"
      by (simp_all add: algebra_simps)
    have "now (snd (phase2 pg st mw ?s)) = st + MAX_POLL_TIME_MS"
      using wait step by (intro less.hyps) (auto simp add: POLL_INTERVAL_MS_def)
    then show ?thesis using wait by (simp add: phase2_wait)
  qed
qed

lemma phase2_by_report:
  "last (trace (snd (phase2 pg st mw s))) = Logged (CompletedByReport n e) \<Longrightarrow>
   mw \<le> now (snd (phase2 pg st mw s))
   \<and> chipStatusAt pg (now (snd (phase2 pg st mw s))) = []
   \<and> n = reportLengthAt pg (now (snd (phase2 pg st mw s))) \<and> 500 < n
   \<and> fst (phase2 pg st mw s)"
proof (induction "nat (st + MAX_POLL_TIME_MS - now s)" arbitrary: s rule: less_induct)
  case less
  show ?case
  proof (cases rule: phase2_cycle_cases [where s = s and st = st and pg = pg and mw = mw])
    case expired
    then show ?thesis using less.prems by (simp add: phase2_exit)
  next
    case bystatus
    then show ?thesis using less.prems by (simp add: phase2_done)
  next
    case status
    let ?s = "sleep POLL_INTERVAL_MS
          (logSub (PollingWithStatus (elapsedSeconds (now s) st) (chipStatusAt pg (now s))) s)"
    have eq: "phase2 pg st mw s = phase2 pg st mw ?s"
      using status by (simp add: phase2_status)
    show ?thesis unfolding eq
      using status less.prems [unfolded eq]
      by (intro less.hyps) (auto simp add: POLL_INTERVAL_MS_def)
  next
    case dwell
    let ?s = "sleep 10000 (logSub (PollingSilent (elapsedSeconds (now s) st)) s)"
    have eq: "phase2 pg st mw s = phase2 pg st mw ?s"
      using dwell by (simp add: phase2_dwell)
    show ?thesis unfolding eq
      using dwell less.prems [unfolded eq]
      by (intro less.hyps) auto
  next
    case byreport
    then show ?thesis using less.prems by (simp add: phase2_report)
  next
    case wait
    let ?s = "sleep POLL_INTERVAL_MS (logSub (PollingSilent (elapsedSeconds (now s) st)) s)"
    have eq: "phase2 pg st mw s = phase2 pg st mw ?s"
      using wait by (simp add: phase2_wait)
    show ?thesis unfolding eq
      using wait less.prems [unfolded eq]
      by (intro less.hyps) (auto simp add: POLL_INTERVAL_MS_def)
  qed
qed


text \<open>
  The dwell of 60 s does not hold back the done status. On a page whose chip already reads
  the done word, phase 1 ends at once and the first cycle of phase 2 returns success after
  the settle delay: 5 s after entering the Started phase, not 60 s.
\<close>

theorem done_status_before_dwell_counterexample:
  "fst (pollForCompletion alreadyDonePage initialState)
   \<and> enteredStartedAt alreadyDonePage initialState = 0
   \<and> now (snd (pollForCompletion alreadyDonePage initialState)) = 5000
   \<and> now (snd (pollForCompletion alreadyDonePage initialState))
       < enteredStartedAt alreadyDonePage initialState + 60000"
  by code_simp

text \<open>
  C3, as the code has it. Only the content-length rule is held back by the minimum dwell:
  whenever \<^verbatim>\<open>pollForCompletion\<close> returns through the report-length rule (its last log line
  is that rule's), it returns success, and at least 60 s after phase 2 (Started) was entered.
\<close>

theorem report_rule_waits_for_dwell:
  "last (trace (snd (pollForCompletion pg s0))) = Logged (CompletedByReport n e) \<Longrightarrow>
   fst (pollForCompletion pg s0)
   \<and> enteredStartedAt pg s0 + 60000 \<le> now (snd (pollForCompletion pg s0))"
  unfolding pollForCompletion_phase2 by (blast dest: phase2_by_report)

theorem report_rule_waits_for_dwell_witness:
  "last (trace (snd (pollForCompletion reportOnlyPage initialState)))
     = Logged (CompletedByReport 1000 60)
   \<and> fst (pollForCompletion reportOnlyPage initialState)
   \<and> enteredStartedAt reportOnlyPage initialState + 60000
       \<le> now (snd (pollForCompletion reportOnlyPage initialState))"
proof -
  have h: "last (trace (snd (pollForCompletion reportOnlyPage initialState)))
     = Logged (CompletedByReport 1000 60)"
    by code_simp
  from report_rule_waits_for_dwell [OF h] h show ?thesis by simp
qed

text \<open>
  C4. Every successful detection should be followed by one settle delay of 5 s. On a page
  that shows activity at once, never shows a status and holds a report of 1000 characters,
  the run below succeeds through the content-length rule at 60 s and returns in the very
  cycle that read the report: the trace holds the six dwell waits of 10 s and no wait of
  5 s. (The done-status branch does wait 5 s before it returns, see \<open>phase2_done\<close>.)
\<close>

theorem report_rule_returns_without_settle_delay:
  "pollForCompletion reportOnlyPage initialState =
     (True,
      \<lparr>now = 60000,
       trace =
         [Logged AwaitingCompletion, Logged Phase1Header, Logged ActivityDetected,
          Logged Phase2Header,
          Logged (PollingSilent 0), Slept 10000, Logged (PollingSilent 10), Slept 10000,
          Logged (PollingSilent 20), Slept 10000, Logged (PollingSilent 30), Slept 10000,
          Logged (PollingSilent 40), Slept 10000, Logged (PollingSilent 50), Slept 10000,
          Logged (CompletedByReport 1000 60)]\<rparr>)
   \<and> Slept 5000 \<notin> set (trace (snd (pollForCompletion reportOnlyPage initialState)))"
  by code_simp

text \<open>
  A feed that never completes need not time out at exactly 15 minutes: when the activity
  indicator first shows 5 s after the start, the cycles of phase 2 fall on 5 s, 15 s, ...,
  65 s, 95 s, ... and the loop leaves at 905 s.
\<close>

theorem timeout_after_ceiling_counterexample:
  "fst (pollForCompletion lateActivityPage initialState) = False
   \<and> now (snd (pollForCompletion lateActivityPage initialState)) - now initialState = 905000
   \<and> now (snd (pollForCompletion lateActivityPage initialState)) - now initialState
       \<noteq> MAX_POLL_TIME_MS"
  by code_simp

text \<open>
  C6, as the code has it. For every feed that never reports a done status and never grows
  the report past 500 characters, \<^verbatim>\<open>pollForCompletion\<close> returns false with the timeout
  logged, never before the ceiling of 15 minutes since its start and less than one poll
  interval (30 s) after it; and at exactly the ceiling when the feed shows nothing at all
  (no status text and no activity indicator).
\<close>

theorem poll_times_out_at_ceiling:
  assumes nd: "\<forall>t. \<not> isDone (chipStatusAt pg t)" and rl: "\<forall>t. reportLengthAt pg t \<le> 500"
  shows "fst (pollForCompletion pg s0) = False
         \<and> last (trace (snd (pollForCompletion pg s0))) = Logged MaxPollTimeReached
         \<and> now s0 + MAX_POLL_TIME_MS \<le> now (snd (pollForCompletion pg s0))
         \<and> now (snd (pollForCompletion pg s0)) < now s0 + MAX_POLL_TIME_MS + POLL_INTERVAL_MS
         \<and> ((\<forall>t. chipStatusAt pg t = [] \<and> \<not> indicatorsAt pg t) \<longrightarrow>
              now (snd (pollForCompletion pg s0)) = now s0 + MAX_POLL_TIME_MS)"
proof -
  have bounds: "fst (pollForCompletion pg s0) = False
         \<and> last (trace (snd (pollForCompletion pg s0))) = Logged MaxPollTimeReached
         \<and> now s0 + MAX_POLL_TIME_MS \<le> now (snd (pollForCompletion pg s0))
         \<and> now (snd (pollForCompletion pg s0)) < now s0 + MAX_POLL_TIME_MS + POLL_INTERVAL_MS"
    using pollForCompletion_never_done [OF nd [rule_format] rl [rule_format], of s0]
    by blast
  have exact: "now (snd (pollForCompletion pg s0)) = now s0 + MAX_POLL_TIME_MS"
    if quiet: "\<forall>t. chipStatusAt pg t = [] \<and> \<not> indicatorsAt pg t"
  proof -
    let ?s2 = "logSub Phase1Header (logSub AwaitingCompletion s0)"
    have p1: "phase1 pg (now ?s2 + 120000) ?s2 =
        (False, ?s2\<lparr>now := now ?s2 + 120000, trace := trace ?s2 @ replicate 24 (Slept 5000)\<rparr>)"
      using quiet by (intro phase1_silent) simp_all
    have started: "enteredStartedAt pg s0 = now s0 + 120000"
      using p1 by (simp add: enteredStartedAt_def startedState_def Let_def)
    show ?thesis
      unfolding pollForCompletion_phase2
      using quiet rl started
      by (intro phase2_silent_exact)
         (simp_all add: enteredStartedAt_def [symmetric] MAX_POLL_TIME_MS_def)
  qed
  from bounds exact show ?thesis by blast
qed

theorem poll_times_out_at_ceiling_witness:
  "(\<forall>t. \<not> isDone (chipStatusAt quietPage t)) \<and> (\<forall>t. reportLengthAt quietPage t \<le> 500)
   \<and> (\<forall>t. chipStatusAt quietPage t = [] \<and> \<not> indicatorsAt quietPage t)
   \<and> fst (pollForCompletion quietPage initialState) = False
   \<and> now (snd (pollForCompletion quietPage initialState)) = 900000"
proof -
  have nd: "\<forall>t. \<not> isDone (chipStatusAt quietPage t)"
    and rl: "\<forall>t. reportLengthAt quietPage t \<le> 500"
    and quiet: "\<forall>t. chipStatusAt quietPage t = [] \<and> \<not> indicatorsAt quietPage t"
    by (simp_all add: quietPage_def)
  from poll_times_out_at_ceiling [OF nd rl, of initialState] quiet nd rl
  show ?thesis by (simp add: initialState_def MAX_POLL_TIME_MS_def)
qed

text \<open>
  C7. The done-status rule comes first in every cycle: a cycle of phase 2 whose status read
  is a done status ends through the status rule (settle delay, then success), whatever the
  length of the report is at that instant. And the content-length rule can end the poller
  only in a cycle whose status read is empty: when the run ends with the report-length
  log line, the chip status at that instant is the empty string (so it is not a done
  status either), and the logged length is the report length read then, above 500.
\<close>

theorem report_rule_only_without_status:
  assumes "now s - st < MAX_POLL_TIME_MS" and "isDone (chipStatusAt pg (now s))"
    and "last (trace (snd (pollForCompletion pg' s0))) = Logged (CompletedByReport n e)"
  shows "phase2 pg st mw s =
           (True, logSub (CompletedByStatus (chipStatusAt pg (now s)) (elapsedSeconds (now s) st))
                    (sleep 5000 s))
         \<and> chipStatusAt pg' (now (snd (pollForCompletion pg' s0))) = []
         \<and> \<not> isDone (chipStatusAt pg' (now (snd (pollForCompletion pg' s0))))
         \<and> n = reportLengthAt pg' (now (snd (pollForCompletion pg' s0))) \<and> 500 < n"
proof -
  have first: "phase2 pg st mw s =
           (True, logSub (CompletedByStatus (chipStatusAt pg (now s)) (elapsedSeconds (now s) st))
                    (sleep 5000 s))"
    using assms(1,2) by (rule phase2_done)
  have second: "chipStatusAt pg' (now (snd (pollForCompletion pg' s0))) = []
         \<and> \<not> isDone (chipStatusAt pg' (now (snd (pollForCompletion pg' s0))))
         \<and> n = reportLengthAt pg' (now (snd (pollForCompletion pg' s0))) \<and> 500 < n"
    using assms(3) unfolding pollForCompletion_phase2 by (auto dest: phase2_by_report)
  from first second show ?thesis by blast
qed

theorem report_rule_only_without_status_witness:
  "isDone (chipStatusAt bothSignalsPage (now initialState))
   \<and> 500 < reportLengthAt bothSignalsPage (now initialState)
   \<and> phase2 bothSignalsPage 0 0 initialState =
       (True, logSub (CompletedByStatus (''Conclu'' @ [CHR 0xED] @ ''do'') 0)
                (sleep 5000 initialState))
   \<and> last (trace (snd (pollForCompletion reportOnlyPage initialState)))
     = Logged (CompletedByReport 1000 60)
   \<and> chipStatusAt reportOnlyPage (now (snd (pollForCompletion reportOnlyPage initialState))) = []"
proof -
  have run: "now initialState - 0 < MAX_POLL_TIME_MS"
    by (simp add: initialState_def MAX_POLL_TIME_MS_def)
  have status: "isDone (chipStatusAt bothSignalsPage (now initialState))"
    by code_simp
  have report: "500 < reportLengthAt bothSignalsPage (now initialState)"
    by (simp add: bothSignalsPage_def quietPage_def)
  have h: "last (trace (snd (pollForCompletion reportOnlyPage initialState)))
     = Logged (CompletedByReport 1000 60)"
    by code_simp
  have chip: "chipStatusAt bothSignalsPage (now initialState) = ''Conclu'' @ [CHR 0xED] @ ''do''"
    by (simp add: bothSignalsPage_def quietPage_def)
  have secs: "elapsedSeconds (now initialState) 0 = 0"
    by (simp add: elapsedSeconds_def initialState_def)
  from report_rule_only_without_status [OF run status h, of 0] status report h chip secs
  show ?thesis by simp
qed

text \<open>
  C8. When none of the 24 probes of the discovery window (every 5 s for 2 minutes) sees a
  status text or an activity indicator, phase 1 ends at its deadline with
  \<^verbatim>\<open>researchStarted\<close> false, the note is logged, and the function goes on into phase 2:
  its result is that of the phase-2 loop entered at 120 s with the dwell bound at 180 s,
  and the loop condition holds on entry.
\<close>

theorem silent_discovery_window_advances:
  assumes "\<forall>k<24. chipStatusAt pg (now s0 + 5000 * int k) = []
                 \<and> \<not> indicatorsAt pg (now s0 + 5000 * int k)"
  shows "startedState pg s0 =
           s0\<lparr>now := now s0 + 120000,
              trace := trace s0 @ [Logged AwaitingCompletion, Logged Phase1Header]
                       @ replicate 24 (Slept 5000)
                       @ [Logged StartNotDetected, Logged Phase2Header]\<rparr>
         \<and> pollForCompletion pg s0 = phase2 pg (now s0) (now s0 + 180000) (startedState pg s0)
         \<and> now (startedState pg s0) - now s0 < MAX_POLL_TIME_MS"
proof -
  let ?s2 = "logSub Phase1Header (logSub AwaitingCompletion s0)"
  have p1: "phase1 pg (now ?s2 + 120000) ?s2 =
      (False, ?s2\<lparr>now := now ?s2 + 120000, trace := trace ?s2 @ replicate 24 (Slept 5000)\<rparr>)"
    using assms by (intro phase1_silent) simp_all
  have st: "startedState pg s0 =
           s0\<lparr>now := now s0 + 120000,
              trace := trace s0 @ [Logged AwaitingCompletion, Logged Phase1Header]
                       @ replicate 24 (Slept 5000)
                       @ [Logged StartNotDetected, Logged Phase2Header]\<rparr>"
    using p1 by (simp add: startedState_def Let_def logSub_def emit_def)
  show ?thesis
    unfolding pollForCompletion_phase2 enteredStartedAt_def
    by (simp add: st MAX_POLL_TIME_MS_def add.commute)
qed

theorem silent_discovery_window_advances_witness:
  "chipStatusAt quietPage (now initialState) = []
   \<and> \<not> indicatorsAt quietPage (now initialState + 5000 * 23)
   \<and> now (startedState quietPage initialState) = 120000
   \<and> pollForCompletion quietPage initialState
       = phase2 quietPage 0 180000 (startedState quietPage initialState)"
proof -
  have h: "\<forall>k<24. chipStatusAt quietPage (now initialState + 5000 * int k) = []
           \<and> \<not> indicatorsAt quietPage (now initialState + 5000 * int k)"
    by (simp add: quietPage_def)
  from silent_discovery_window_advances [OF h] show ?thesis
    by (simp add: initialState_def quietPage_def)
qed

subsection \<open>The confirmation stage\<close>

declare confirmLoop.simps [simp del]





lemma confirmLoop_wait_rejected:
  assumes "now s - startTime < 60000" and "fst (confirmAttempt pg s) \<noteq> Inr True"
    and "\<not> waitOk pg (now (snd (confirmAttempt pg s)))"
  shows "confirmLoop pg startTime s = (Inl (WaitRejected 2000), snd (confirmAttempt pg s))"
  using assms
  by (subst confirmLoop.simps)
     (auto simp add: waitForTimeout_def split: prod.splits sum.splits bool.splits)

lemma confirmLoop_clicked:
  assumes "now s - startTime < 60000" and "fst (confirmAttempt pg s) = Inr True"
  shows "confirmLoop pg startTime s = (Inr (), snd (confirmAttempt pg s))"
  using assms
  by (subst confirmLoop.simps) (auto split: prod.splits sum.splits bool.splits)



lemma confirmResearchStart_first_button:
  assumes "roleButtonAt pg (now s) (hd possibleButtons) = Shown"
    and "roleClickOk pg (now s) (hd possibleButtons)" and "waitOk pg (now s)"
  shows "fst (confirmResearchStart pg s) = Inr ()"
proof -
  let ?s1 = "logSub SearchingConfirmButton s"
  have "fst (confirmAttempt pg ?s1) = Inr True"
    using assms
    by (simp add: confirmAttempt_def possibleButtons_def Let_def waitForTimeout_def)
  then show ?thesis
    by (simp add: confirmResearchStart_def Let_def confirmLoop_clicked)
qed

lemma fullFlow_after_confirm:
  "fst (beforeConfirm pg s0) = Inr () \<Longrightarrow>
   fst (confirmResearchStart pg (snd (beforeConfirm pg s0))) = Inr () \<Longrightarrow>
   fullFlow pg skipKindle s0 =
     afterPoll pg skipKindle
       (snd (pollForCompletion pg (snd (confirmResearchStart pg (snd (beforeConfirm pg s0))))))"
  by (cases "beforeConfirm pg s0"; cases "confirmResearchStart pg (snd (beforeConfirm pg s0))")
     (simp add: fullFlow_def andThen_def split: prod.splits)

lemma fullFlow_confirm_raises:
  "fst (beforeConfirm pg s0) = Inr () \<Longrightarrow>
   fst (confirmResearchStart pg (snd (beforeConfirm pg s0))) = Inl err \<Longrightarrow>
   fullFlow pg skipKindle s0 = (Inl err, snd (confirmResearchStart pg (snd (beforeConfirm pg s0))))"
  by (cases "beforeConfirm pg s0"; cases "confirmResearchStart pg (snd (beforeConfirm pg s0))")
     (simp add: fullFlow_def andThen_def split: prod.splits)




subsection \<open>The selector cascades\<close>







subsection \<open>The full-automation branch\<close>

lemma isDone_Pesquisando: "\<not> isDone ''Pesquisando''"
  by code_simp

lemma phase2_false_is_timeout:
  "fst (phase2 pg st mw s) = False \<Longrightarrow>
   last (trace (snd (phase2 pg st mw s))) = Logged MaxPollTimeReached"
proof (induction "nat (st + MAX_POLL_TIME_MS - now s)" arbitrary: s rule: less_induct)
  case less
  show ?case
  proof (cases rule: phase2_cycle_cases [where s = s and st = st and pg = pg and mw = mw])
    case expired
    then show ?thesis by (simp add: phase2_exit)
  next
    case bystatus
    then show ?thesis using less.prems by (simp add: phase2_done)
  next
    case status
    let ?s = "sleep POLL_INTERVAL_MS
          (logSub (PollingWithStatus (elapsedSeconds (now s) st) (chipStatusAt pg (now s))) s)"
    have eq: "phase2 pg st mw s = phase2 pg st mw ?s"
      using status by (simp add: phase2_status)
    show ?thesis unfolding eq
      using status less.prems [unfolded eq]
      by (intro less.hyps) (auto simp add: POLL_INTERVAL_MS_def)
  next
    case dwell
    let ?s = "sleep 10000 (logSub (PollingSilent (elapsedSeconds (now s) st)) s)"
    have eq: "phase2 pg st mw s = phase2 pg st mw ?s"
      using dwell by (simp add: phase2_dwell)
    show ?thesis unfolding eq
      using dwell less.prems [unfolded eq]
      by (intro less.hyps) auto
  next
    case byreport
    then show ?thesis using less.prems by (simp add: phase2_report)
  next
    case wait
    let ?s = "sleep POLL_INTERVAL_MS (logSub (PollingSilent (elapsedSeconds (now s) st)) s)"
    have eq: "phase2 pg st mw s = phase2 pg st mw ?s"
      using wait by (simp add: phase2_wait)
    show ?thesis unfolding eq
      using wait less.prems [unfolded eq]
      by (intro less.hyps) (auto simp add: POLL_INTERVAL_MS_def)
  qed
qed

lemma pollForCompletion_false_is_timeout:
  "fst (pollForCompletion pg s) = False \<Longrightarrow>
   last (trace (snd (pollForCompletion pg s))) = Logged MaxPollTimeReached"
  unfolding pollForCompletion_phase2 by (rule phase2_false_is_timeout)

lemma trace_runStage:
  "trace (snd (runStage pg st s)) = trace s @ [Entered st]"
  by (simp add: runStage_def Let_def)

lemma fst_runStage:
  "fst (runStage pg st s) = (if stageOk pg st then Inr () else Inl (StageFailed st))"
  by (simp add: runStage_def Let_def)

lemma afterPoll_enters_export:
  "\<exists>rest. trace (snd (afterPoll pg skipKindle s)) = trace s @ Entered ExportToGoogleDocs # rest"
  by (cases "stageOk pg ExportToGoogleDocs"; cases "stageOk pg DownloadEpubFromDocs";
      cases "stageOk pg CloseDocsTab"; cases "stageOk pg SendToKindle"; cases skipKindle)
     (simp_all add: afterPoll_def andThen_def runStage_def Let_def)

lemma afterPoll_result:
  "fst (afterPoll pg skipKindle s) =
     (if \<not> stageOk pg ExportToGoogleDocs then Inl (StageFailed ExportToGoogleDocs)
      else if \<not> stageOk pg DownloadEpubFromDocs then Inl (StageFailed DownloadEpubFromDocs)
      else if \<not> stageOk pg CloseDocsTab then Inl (StageFailed CloseDocsTab)
      else if skipKindle then Inr ()
      else if stageOk pg SendToKindle then Inr ()
      else Inl (StageFailed SendToKindle))"
  by (simp add: afterPoll_def andThen_def runStage_def Let_def)

text \<open>The two ways the \<^verbatim>\<open>try\<close> statement ends.\<close>

lemma mainTry_on_success:
  "fst (fullFlow pg skipKindle s) = Inr () \<Longrightarrow>
   mainTry pg skipKindle s = (Normal (), emit ContextClosed (snd (fullFlow pg skipKindle s)))"
  by (cases "fullFlow pg skipKindle s")
     (simp add: mainTry_def tryCatchFinally_def finallyBlock_def)

lemma mainTry_on_error:
  "fst (fullFlow pg skipKindle s) = Inl err \<Longrightarrow>
   mainTry pg skipKindle s =
     (Exited 1, emit Screenshot (logSub (ErrorMessage err) (snd (fullFlow pg skipKindle s))))"
  by (cases "fullFlow pg skipKindle s")
     (simp add: mainTry_def tryCatchFinally_def catchBlock_def processExit_def)

lemma mainTry_extends_flow:
  "\<exists>rest. trace (snd (mainTry pg skipKindle s)) = trace (snd (fullFlow pg skipKindle s)) @ rest"
proof (cases "fst (fullFlow pg skipKindle s)")
  case (Inl err)
  from mainTry_on_error [OF this] show ?thesis by simp
next
  case (Inr u)
  then have "fst (fullFlow pg skipKindle s) = Inr ()" by simp
  from mainTry_on_success [OF this] show ?thesis by simp
qed

lemma mainTry_exitStatus:
  "exitStatus (fst (mainTry pg skipKindle s)) =
     (case fst (fullFlow pg skipKindle s) of Inr u \<Rightarrow> 0 | Inl err \<Rightarrow> 1)"
proof (cases "fst (fullFlow pg skipKindle s)")
  case (Inl err)
  from mainTry_on_error [OF this] Inl show ?thesis by simp
next
  case (Inr u)
  then have ok: "fst (fullFlow pg skipKindle s) = Inr ()" by simp
  from mainTry_on_success [OF ok] ok show ?thesis by simp
qed

text \<open>
  A run in which polling times out and nothing halts: the first confirmation button is
  there, the chip reads \<^verbatim>\<open>Pesquisando\<close> for ever, and every stage returns. The timeout is
  logged, the export, download and delivery stages are entered all the same, the context
  is closed and the exit status is 0.
\<close>

theorem poll_timeout_pipeline_goes_on_counterexample:
  "Logged MaxPollTimeReached \<in> set (trace (snd (mainFull stuckPage None False initialState)))
   \<and> Entered ExportToGoogleDocs \<in> set (trace (snd (mainFull stuckPage None False initialState)))
   \<and> Entered DownloadEpubFromDocs \<in> set (trace (snd (mainFull stuckPage None False initialState)))
   \<and> Entered SendToKindle \<in> set (trace (snd (mainFull stuckPage None False initialState)))
   \<and> fst (mainFull stuckPage None False initialState) = Normal ()
   \<and> exitStatus (fst (mainFull stuckPage None False initialState)) = 0"
proof -
  define s2 where "s2 = snd (runStage stuckPage LaunchBrowser
                          (logSub (ModelLine (labelOf (resolveModel None))) initialState))"
  define sp where "sp = snd (pollForCompletion stuckPage
                          (snd (confirmResearchStart stuckPage (snd (beforeConfirm stuckPage s2)))))"
  have ok: "stageOk stuckPage st" for st
    by (simp add: stuckPage_def confirmingPage_def quietPage_def)
  have main: "mainFull stuckPage None False initialState = mainTry stuckPage False s2"
    by (simp add: mainFull_def afterLaunch_def runStage_def Let_def ok s2_def)
  have reach: "fst (beforeConfirm stuckPage s2) = Inr ()"
    by (simp add: beforeConfirm_def andThen_def selectModel_def enableDeepResearch_def
        runStage_def Let_def ok)
  have nd: "\<not> isDone (chipStatusAt stuckPage t)" for t
    by (simp add: stuckPage_def isDone_Pesquisando)
  have rl: "reportLengthAt stuckPage t \<le> 500" for t
    by (simp add: stuckPage_def confirmingPage_def quietPage_def)
  have logged: "Logged MaxPollTimeReached \<in> set (trace sp)"
    unfolding sp_def using pollForCompletion_never_done [OF nd rl] by blast
  have confirmed: "fst (confirmResearchStart stuckPage (snd (beforeConfirm stuckPage s2))) = Inr ()"
    by (rule confirmResearchStart_first_button)
       (simp_all add: stuckPage_def confirmingPage_def quietPage_def)
  have flow: "fullFlow stuckPage False s2 = afterPoll stuckPage False sp"
    unfolding sp_def by (rule fullFlow_after_confirm [OF reach confirmed])
  have after: "fst (afterPoll stuckPage False sp) = Inr ()"
    "trace (snd (afterPoll stuckPage False sp)) =
       trace sp @ [Entered ExportToGoogleDocs, Entered DownloadEpubFromDocs,
                   Entered CloseDocsTab, Entered SendToKindle, Logged Finished]"
    by (simp_all add: afterPoll_def andThen_def runStage_def Let_def ok)
  have "mainTry stuckPage False s2 =
          (Normal (), emit ContextClosed (snd (afterPoll stuckPage False sp)))"
    using mainTry_on_success [of stuckPage False s2] after(1) by (simp add: flow)
  with main after(2) logged show ?thesis by simp
qed

text \<open>
  C1, as the code has it. In a run that reaches the poller (the stages before it and the
  confirmation stage returned) and in which polling times out, \<^verbatim>\<open>pollForCompletion\<close> logs
  the timeout and returns false without raising; \<^verbatim>\<open>main\<close> does not look at the value, so
  the flow goes on: the event right after the timeout log is the entry into the export
  stage. The exit
  status is 0 when the export, download, tab-closing and (unless skipped) delivery stages
  all return, and 1 when one of them raises.
\<close>

theorem poll_timeout_proceeds_to_export:
  assumes reach: "fst (beforeConfirm pg s0) = Inr ()"
    and confirmed: "fst (confirmResearchStart pg (snd (beforeConfirm pg s0))) = Inr ()"
    and sp: "sp = snd (pollForCompletion pg
                         (snd (confirmResearchStart pg (snd (beforeConfirm pg s0)))))"
    and timeout: "fst (pollForCompletion pg
                         (snd (confirmResearchStart pg (snd (beforeConfirm pg s0))))) = False"
  shows "last (trace sp) = Logged MaxPollTimeReached
         \<and> fullFlow pg skipKindle s0 = afterPoll pg skipKindle sp
         \<and> (\<exists>rest. trace (snd (mainTry pg skipKindle s0))
                     = trace sp @ Entered ExportToGoogleDocs # rest)
         \<and> exitStatus (fst (mainTry pg skipKindle s0)) =
             (if stageOk pg ExportToGoogleDocs \<and> stageOk pg DownloadEpubFromDocs
                 \<and> stageOk pg CloseDocsTab \<and> (skipKindle \<or> stageOk pg SendToKindle)
              then 0 else 1)"
proof -
  have logged: "last (trace sp) = Logged MaxPollTimeReached"
    unfolding sp by (rule pollForCompletion_false_is_timeout [OF timeout])
  have flow: "fullFlow pg skipKindle s0 = afterPoll pg skipKindle sp"
    unfolding sp by (rule fullFlow_after_confirm [OF reach confirmed])
  obtain r1 where r1: "trace (snd (afterPoll pg skipKindle sp))
                         = trace sp @ Entered ExportToGoogleDocs # r1"
    using afterPoll_enters_export by blast
  obtain r2 where r2: "trace (snd (mainTry pg skipKindle s0))
                         = trace (snd (fullFlow pg skipKindle s0)) @ r2"
    using mainTry_extends_flow by blast
  have next_event: "\<exists>rest. trace (snd (mainTry pg skipKindle s0))
                     = trace sp @ Entered ExportToGoogleDocs # rest"
    using r1 r2 flow by simp
  have status: "exitStatus (fst (mainTry pg skipKindle s0)) =
             (if stageOk pg ExportToGoogleDocs \<and> stageOk pg DownloadEpubFromDocs
                 \<and> stageOk pg CloseDocsTab \<and> (skipKindle \<or> stageOk pg SendToKindle)
              then 0 else 1)"
    by (simp add: mainTry_exitStatus flow afterPoll_result)
  from logged flow next_event status show ?thesis by blast
qed

theorem poll_timeout_proceeds_to_export_witness:
  "fst (beforeConfirm stuckPage initialState) = Inr ()
   \<and> fst (confirmResearchStart stuckPage (snd (beforeConfirm stuckPage initialState))) = Inr ()
   \<and> fst (pollForCompletion stuckPage
            (snd (confirmResearchStart stuckPage (snd (beforeConfirm stuckPage initialState)))))
       = False
   \<and> (\<exists>rest. trace (snd (mainTry stuckPage False initialState))
               = trace (snd (pollForCompletion stuckPage
                   (snd (confirmResearchStart stuckPage
                          (snd (beforeConfirm stuckPage initialState))))))
                 @ Entered ExportToGoogleDocs # rest)
   \<and> exitStatus (fst (mainTry stuckPage False initialState)) = 0"
proof -
  have ok: "stageOk stuckPage st" for st
    by (simp add: stuckPage_def confirmingPage_def quietPage_def)
  have reach: "fst (beforeConfirm stuckPage initialState) = Inr ()"
    by (simp add: beforeConfirm_def andThen_def selectModel_def enableDeepResearch_def
        runStage_def Let_def ok)
  have nd: "\<not> isDone (chipStatusAt stuckPage t)" for t
    by (simp add: stuckPage_def isDone_Pesquisando)
  have rl: "reportLengthAt stuckPage t \<le> 500" for t
    by (simp add: stuckPage_def confirmingPage_def quietPage_def)
  have timeout: "fst (pollForCompletion stuckPage
            (snd (confirmResearchStart stuckPage (snd (beforeConfirm stuckPage initialState)))))
       = False"
    using pollForCompletion_never_done [OF nd rl] by blast
  have confirmed:
    "fst (confirmResearchStart stuckPage (snd (beforeConfirm stuckPage initialState))) = Inr ()"
    by (rule confirmResearchStart_first_button)
       (simp_all add: stuckPage_def confirmingPage_def quietPage_def)
  from poll_timeout_proceeds_to_export [OF reach confirmed refl timeout, of False]
    reach confirmed timeout ok
  show ?thesis by simp
qed

text \<open>
  C2. The context should be closed whatever the outcome. In the run below the research
  completes and the export stage raises: the \<^verbatim>\<open>catch\<close> block logs the error, takes the
  screenshot and calls \<^verbatim>\<open>process.exit(1)\<close>, which ends the process there, so the \<^verbatim>\<open>finally\<close>
  block never runs and the context is never closed. (When the flow returns, the context
  is closed: \<open>mainTry_on_success\<close>.)
\<close>

theorem failed_stage_exits_without_closing_context:
  "mainFull exportFailsPage None False initialState =
     (Exited 1,
      \<lparr>now = 10000,
       trace =
         [Logged (ModelLine (Some (label DEFAULT_MODEL))),
          Entered LaunchBrowser, Entered NavigateToGemini, Entered SelectModel,
          Entered EnableDeepResearch, Entered SubmitQuery,
          Logged SearchingConfirmButton,
          Probed (RoleButton (hd possibleButtons)),
          Logged (ButtonFound (hd possibleButtons)),
          Clicked (RoleButton (hd possibleButtons)),
          Logged ResearchStartedConfirmed, Slept 5000,
          Logged AwaitingCompletion, Logged Phase1Header,
          Logged (StatusDetected (''Conclu'' @ [CHR 0xED] @ ''do'')),
          Logged AlreadyCompleted, Logged Phase2Header, Slept 5000,
          Logged (CompletedByStatus (''Conclu'' @ [CHR 0xED] @ ''do'') 0),
          Entered ExportToGoogleDocs,
          Logged (ErrorMessage (StageFailed ExportToGoogleDocs)),
          Screenshot]\<rparr>)
   \<and> ContextClosed \<notin> set (trace (snd (mainFull exportFailsPage None False initialState)))"
proof -
  have run: "mainFull exportFailsPage None False initialState =
     (Exited 1,
      \<lparr>now = 10000,
       trace =
         [Logged (ModelLine (Some (label DEFAULT_MODEL))),
          Entered LaunchBrowser, Entered NavigateToGemini, Entered SelectModel,
          Entered EnableDeepResearch, Entered SubmitQuery,
          Logged SearchingConfirmButton,
          Probed (RoleButton (hd possibleButtons)),
          Logged (ButtonFound (hd possibleButtons)),
          Clicked (RoleButton (hd possibleButtons)),
          Logged ResearchStartedConfirmed, Slept 5000,
          Logged AwaitingCompletion, Logged Phase1Header,
          Logged (StatusDetected (''Conclu'' @ [CHR 0xED] @ ''do'')),
          Logged AlreadyCompleted, Logged Phase2Header, Slept 5000,
          Logged (CompletedByStatus (''Conclu'' @ [CHR 0xED] @ ''do'') 0),
          Entered ExportToGoogleDocs,
          Logged (ErrorMessage (StageFailed ExportToGoogleDocs)),
          Screenshot]\<rparr>)"
    by code_simp
  show ?thesis unfolding run by simp
qed

end
